theory Spec2Isabelle
  imports Main
begin

section \<open>Errors and documents\<close>

text \<open>
  Python exceptions are values: a function that may raise returns \<open>error + 'a\<close>, with
  \<open>Inl\<close> the exception. \<open>UpstreamError\<close> stands for any exception raised by an external
  service (embedding endpoint, vector database, language model).
\<close>

datatype error =
    ValueError string
  | FileNotFoundError string
  | UpstreamError string

text \<open>
  \<open>langchain_core.documents.Document\<close>: the text and a metadata dict. The dict is an
  association list in the order of the dict literal; \<open>map_of\<close> is the lookup.
\<close>

record document =
  page_content :: string
  metadata :: "(string \<times> string) list"

section \<open>flipkart/config.py\<close>

text \<open>
  \<open>os.getenv\<close> returns \<open>None\<close> for a variable that is not set and the string (possibly
  empty) otherwise: every environment-backed attribute is a \<open>string option\<close>.
\<close>

record config =
  ASTRA_DB_API_ENDPOINT :: "string option"
  ASTRA_DB_APPLICATION_TOKEN :: "string option"
  ASTRA_DB_KEYSPACE :: "string option"
  GROQ_API_KEY :: "string option"

definition EMBEDDING_MODEL :: string where
  "EMBEDDING_MODEL = ''BAAI/bge-base-en-v1.5''"

definition RAG_MODEL :: string where
  "RAG_MODEL = ''llama-3.1-8b-instant''"

section \<open>flipkart/data\_converter.py\<close>

text \<open>
  A row of the data frame after the selection of the columns \<open>product_title\<close> and \<open>review\<close>:
  a cell is a string, or missing (\<open>NaN\<close>, here \<open>None\<close>). Cells of a numeric dtype are
  not modelled. Characters are \<open>char\<close>: the code points below 256.
\<close>

record row =
  product_title :: "string option"
  review :: "string option"

text \<open>\<open>str.isspace\<close> on one character, for the code points below 256.\<close>

definition py_isspace :: "char \<Rightarrow> bool" where
  "py_isspace c \<longleftrightarrow>
     c \<in> {CHR 0x09, CHR 0x0A, CHR 0x0B, CHR 0x0C, CHR 0x0D,
          CHR 0x1C, CHR 0x1D, CHR 0x1E, CHR 0x1F, CHR 0x20, CHR 0x85, CHR 0xA0}"

text \<open>\<open>str.strip()\<close>: leading and trailing whitespace removed.\<close>

definition strip :: "string \<Rightarrow> string" where
  "strip s = rev (dropWhile py_isspace (rev (dropWhile py_isspace s)))"

text \<open>\<open>str(cell)\<close>: a string is itself, a missing cell prints as \<open>nan\<close>.\<close>

definition py_str :: "string option \<Rightarrow> string" where
  "py_str cell = (case cell of Some s \<Rightarrow> s | None \<Rightarrow> ''nan'')"

text \<open>\<open>df.dropna(subset=['review', 'product_title'])\<close>\<close>

definition dropna :: "row list \<Rightarrow> row list" where
  "dropna df = filter (\<lambda>r. review r \<noteq> None \<and> product_title r \<noteq> None) df"

text \<open>
  \<open>df[df['review'].str.strip() != '']\<close>: on a missing cell \<open>.str.strip()\<close> is \<open>NaN\<close>,
  which differs from the empty string, so the row is kept.
\<close>

definition nonblank :: "row list \<Rightarrow> row list" where
  "nonblank df =
     filter (\<lambda>r. case review r of None \<Rightarrow> True | Some s \<Rightarrow> strip s \<noteq> []) df"

definition mk_document :: "row \<Rightarrow> document" where
  "mk_document r =
     \<lparr> page_content = strip (py_str (review r)),
       metadata = [(''product_name'', strip (py_str (product_title r))),
                   (''source'', ''flipkart_reviews'')] \<rparr>"

text \<open>
  \<open>DataConverter.convert\<close>, from the data frame that \<open>pd.read_csv\<close> returned: the two
  filters, then the comprehension with its length test.
\<close>

definition convert :: "row list \<Rightarrow> document list" where
  "convert df =
     map mk_document
       (filter (\<lambda>r. length (strip (py_str (review r))) > 10) (nonblank (dropna df)))"

section \<open>flipkart/data\_ingestion.py\<close>

text \<open>\<open>', '.join(xs)\<close>\<close>

fun join :: "string \<Rightarrow> string list \<Rightarrow> string" where
  "join sep [] = []"
| "join sep [x] = x"
| "join sep (x # y # ys) = x @ sep @ join sep (y # ys)"

definition required_vars :: "config \<Rightarrow> (string \<times> string option) list" where
  "required_vars cfg =
     [(''ASTRA_DB_API_ENDPOINT'', ASTRA_DB_API_ENDPOINT cfg),
      (''ASTRA_DB_APPLICATION_TOKEN'', ASTRA_DB_APPLICATION_TOKEN cfg),
      (''ASTRA_DB_KEYSPACE'', ASTRA_DB_KEYSPACE cfg)]"

definition missing_vars :: "config \<Rightarrow> string list" where
  "missing_vars cfg =
     map fst (filter (\<lambda>(var_name, var_value). var_value = None) (required_vars cfg))"

text \<open>\<open>DataIngestor._validate_config\<close>\<close>

definition validate_config :: "config \<Rightarrow> error + unit" where
  "validate_config cfg =
     (if missing_vars cfg \<noteq> []
      then Inl (ValueError
             (''Missing required environment variables: '' @ join '', '' (missing_vars cfg)))
      else Inr ())"

text \<open>
  \<open>DataIngestor.__init__\<close>. The two external constructors are parameters:
  \<open>mk_embedding\<close> is \<open>HuggingFaceEndpointEmbeddings(model=...)\<close> and \<open>mk_vstore\<close> is
  \<open>AstraDBVectorStore(embedding, collection_name, api_endpoint, token, namespace)\<close>;
  either may raise. The \<open>except\<close> clause logs and re-raises, so it is the identity here.
\<close>

record ('e, 'v) ingestor =
  embedding :: 'e
  vstore :: 'v

definition init_ingestor ::
  "(string \<Rightarrow> error + 'e) \<Rightarrow>
   ('e \<Rightarrow> string \<Rightarrow> string option \<Rightarrow> string option \<Rightarrow> string option \<Rightarrow> error + 'v) \<Rightarrow>
   config \<Rightarrow> error + ('e, 'v) ingestor" where
  "init_ingestor mk_embedding mk_vstore cfg =
     (case validate_config cfg of
        Inl e \<Rightarrow> Inl e
      | Inr _ \<Rightarrow>
          (case mk_embedding EMBEDDING_MODEL of
             Inl e \<Rightarrow> Inl e
           | Inr emb \<Rightarrow>
               (case mk_vstore emb ''flipkart_database'' (ASTRA_DB_API_ENDPOINT cfg)
                       (ASTRA_DB_APPLICATION_TOKEN cfg) (ASTRA_DB_KEYSPACE cfg) of
                  Inl e \<Rightarrow> Inl e
                | Inr vs \<Rightarrow> Inr \<lparr> embedding = emb, vstore = vs \<rparr>)))"










text \<open>
  A vector-store constructor that connects: a reachable database, named by its
  collection.
\<close>

definition connects :: "string \<Rightarrow> string \<Rightarrow> string option \<Rightarrow> string option \<Rightarrow> string option \<Rightarrow> error + string" where
  "connects emb collection_name api_endpoint token namespace = Inr collection_name"

section \<open>flipkart/rag\_chain.py\<close>

text \<open>
  A chat history holds \<open>HumanMessage\<close> and \<open>AIMessage\<close> objects; only their text matters
  here.
\<close>

datatype message = HumanMessage string | AIMessage string

text \<open>
  \<open>RAGChainBuilder\<close>. \<open>history_store\<close> is a dict from session id to a
  \<open>ChatMessageHistory\<close> object. Objects have identity, so the dict holds addresses and
  \<open>heap\<close> holds the objects: the entry at address \<open>a\<close> is the \<open>messages\<close> list of the
  history allocated \<open>a\<close>-th. The dict is an association list in insertion order, looked
  up with \<open>map_of\<close>. The \<open>model\<close> attribute is the client of the language model, which is
  external: its calls are the fields of \<open>world\<close> below.
\<close>

type_synonym addr = nat

record 'v builder =
  vector_store :: 'v
  history_store :: "(string \<times> addr) list"
  heap :: "message list list"

text \<open>\<open>RAGChainBuilder.__init__\<close>\<close>

definition init_builder :: "'v \<Rightarrow> 'v builder" where
  "init_builder vs = \<lparr> vector_store = vs, history_store = [], heap = [] \<rparr>"

text \<open>
  \<open>RAGChainBuilder._get_history\<close>: a session id that is not in the dict gets a new, empty
  \<open>ChatMessageHistory\<close>; the object stored under the id is returned.
\<close>

definition get_history :: "string \<Rightarrow> 'v builder \<Rightarrow> addr \<times> 'v builder" where
  "get_history session_id b =
     (case map_of (history_store b) session_id of
        None \<Rightarrow>
          (let a = length (heap b)
           in (a, b\<lparr> history_store := history_store b @ [(session_id, a)],
                     heap := heap b @ [Nil] \<rparr>))
      | Some a \<Rightarrow> (a, b))"

text \<open>\<open>history.messages\<close> and \<open>history.add_messages(ms)\<close> on the object at an address.\<close>

definition messages_at :: "addr \<Rightarrow> 'v builder \<Rightarrow> message list" where
  "messages_at a b = heap b ! a"

definition add_messages :: "addr \<Rightarrow> message list \<Rightarrow> 'v builder \<Rightarrow> 'v builder" where
  "add_messages a ms b = b\<lparr> heap := (heap b)[a := heap b ! a @ ms] \<rparr>"

text \<open>
  The messages of the session of a key, read through the dict; a key that has no session
  yet has no messages.
\<close>

definition session_messages :: "string \<Rightarrow> 'v builder \<Rightarrow> message list" where
  "session_messages session_id b =
     (case map_of (history_store b) session_id of
        None \<Rightarrow> []
      | Some a \<Rightarrow> messages_at a b)"

text \<open>The turns of a message list: each human message with the answer that follows it.\<close>

fun turns :: "message list \<Rightarrow> (string \<times> string) list" where
  "turns (HumanMessage h # AIMessage a # ms) = (h, a) # turns ms"
| "turns ms = []"

text \<open>
  The store is well formed when every session has its own allocated history object:
  the keys are distinct, the addresses are distinct and all below the heap's size.
\<close>

definition wf :: "'v builder \<Rightarrow> bool" where
  "wf b \<longleftrightarrow>
     distinct (map fst (history_store b)) \<and> distinct (map snd (history_store b)) \<and>
     list_all (\<lambda>(session_id, a). a < length (heap b)) (history_store b)"

text \<open>
  \<open>vector_store.as_retriever(search_type=..., search_kwargs={"k": ...})\<close>: the retriever
  keeps its configuration.
\<close>

record retriever =
  search_type :: string
  search_k :: nat

definition as_retriever :: "string \<Rightarrow> nat \<Rightarrow> retriever" where
  "as_retriever st k = \<lparr> search_type = st, search_k = k \<rparr>"

text \<open>
  The vector index, as far as retrieval sees it: the list of its documents and the
  similarity score of a query and a document, in any linear order.
\<close>

record 's vector_index =
  indexed :: "document list"
  similarity :: "string \<Rightarrow> document \<Rightarrow> 's"

text \<open>
  Modelled from the spec: the similarity search of the vector store, an external service
  whose code the repository does not contain. Section 4.3: similarity ranking over the
  indexed documents, returning the top \<open>k\<close> by similarity, with no score threshold.
\<close>

definition similarity_search :: "('s::linorder) vector_index \<Rightarrow> string \<Rightarrow> nat \<Rightarrow> document list" where
  "similarity_search idx query k = take k (rev (sort_key (similarity idx query) (indexed idx)))"

text \<open>
  What the external services do during one request: \<open>rewrite\<close> is the language model on
  the reformulation prompt (chat history, input), \<open>index_fault\<close> is the connectivity
  error of the index, if any, and \<open>generate\<close> is the language model on the answer
  prompt (context, chat history, input), which also fails when its response lacks the
  answer. The model samples at temperature 0.5, so each request has its own \<open>world\<close>.
\<close>

record world =
  rewrite :: "message list \<Rightarrow> string \<Rightarrow> error + string"
  index_fault :: "error option"
  generate :: "string \<Rightarrow> message list \<Rightarrow> string \<Rightarrow> error + string"

text \<open>
  Modelled from the spec: \<open>create_history_aware_retriever\<close> belongs to the langchain
  library, whose code the repository does not contain. Section 4.2: the standalone query is the model's
  rewriting of the input given the history, a model failure surfaces unmodified, and
  with an empty history the query is the raw user input.
\<close>

definition standalone_query :: "world \<Rightarrow> message list \<Rightarrow> string \<Rightarrow> error + string" where
  "standalone_query w chat_history user_input =
     (if chat_history = [] then Inr user_input else rewrite w chat_history user_input)"

text \<open>
  Modelled from the spec: the retriever's call on the index, library code that the
  repository does not contain. Section 4.3: the search with the retriever's own \<open>k\<close>;
  index errors surface unmodified.
\<close>

definition retrieve ::
  "retriever \<Rightarrow> world \<Rightarrow> ('s::linorder) vector_index \<Rightarrow> string \<Rightarrow> error + document list" where
  "retrieve r w idx query =
     (case index_fault w of
        Some e \<Rightarrow> Inl e
      | None \<Rightarrow> Inr (similarity_search idx query (search_k r)))"

text \<open>
  Modelled from the spec: \<open>create_stuff_documents_chain\<close> belongs to the langchain
  library, whose code the repository does not contain. Section 4.4: the contents of the retrieved documents
  in order, joined by a fixed separator (a blank line).
\<close>

definition assemble :: "document list \<Rightarrow> string" where
  "assemble docs = join [CHR 0x0A, CHR 0x0A] (map page_content docs)"

text \<open>
  \<open>RAGChainBuilder.build_chain\<close>: the chain keeps the retriever that was made for it,
  with \<open>search_type="similarity"\<close> and \<open>k = 5\<close>; the prompts are fixed texts.
\<close>

record chain =
  chain_retriever :: retriever

definition build_chain :: chain where
  "build_chain = \<lparr> chain_retriever = as_retriever ''similarity'' 5 \<rparr>"

text \<open>
  Modelled from the spec: \<open>RunnableWithMessageHistory.invoke\<close> on the chain belongs to
  the langchain library, whose code the repository does not contain. Section 4.6 (\<open>handle_message\<close>): load the
  session's history with \<open>_get_history\<close>, reformulate, retrieve, assemble, generate,
  then append the human input and the answer to the history and return the answer; a
  failing step aborts the request with its error and nothing is appended.
\<close>

definition invoke ::
  "chain \<Rightarrow> world \<Rightarrow> string \<Rightarrow> string \<Rightarrow> (('s::linorder) vector_index) builder \<Rightarrow>
   (error + string) \<times> ('s vector_index) builder" where
  "invoke c w session_id user_input b =
     (let (a, b1) = get_history session_id b;
          chat_history = messages_at a b1
      in case standalone_query w chat_history user_input of
           Inl e \<Rightarrow> (Inl e, b1)
         | Inr query \<Rightarrow>
             (case retrieve (chain_retriever c) w (vector_store b1) query of
                Inl e \<Rightarrow> (Inl e, b1)
              | Inr docs \<Rightarrow>
                  (case generate w (assemble docs) chat_history user_input of
                     Inl e \<Rightarrow> (Inl e, b1)
                   | Inr answer \<Rightarrow>
                       (Inr answer,
                        add_messages a [HumanMessage user_input, AIMessage answer] b1))))"

text \<open>Requests served strictly one after the other, each with its session id.\<close>

fun invoke_all ::
  "chain \<Rightarrow> (string \<times> world \<times> string) list \<Rightarrow> (('s::linorder) vector_index) builder \<Rightarrow>
   (error + string) list \<times> ('s vector_index) builder" where
  "invoke_all c [] b = ([], b)"
| "invoke_all c ((session_id, w, user_input) # calls) b =
     (let (r, b1) = invoke c w session_id user_input b;
          (rs, b2) = invoke_all c calls b1
      in (r # rs, b2))"

text \<open>
  The messages that a served request leaves in the session of \<open>sid\<close>: the input and the
  answer when the request was for that session and succeeded, nothing otherwise.
\<close>

fun recorded :: "string \<Rightarrow> (string \<times> world \<times> string) \<times> (error + string) \<Rightarrow> message list" where
  "recorded sid ((session_id, w, user_input), Inr answer) =
     (if session_id = sid then [HumanMessage user_input, AIMessage answer] else [])"
| "recorded sid ((session_id, w, user_input), Inl e) = []"

section \<open>app.py\<close>

text \<open>
  \<open>get_response\<close>, the handler of \<open>POST /get\<close>: the chain is invoked with the message of
  the form and the session id \<open>"user-session"\<close>; the response is the answer.
\<close>

definition get_response ::
  "chain \<Rightarrow> world \<Rightarrow> string \<Rightarrow> (('s::linorder) vector_index) builder \<Rightarrow>
   (error + string) \<times> ('s vector_index) builder" where
  "get_response rag_chain w user_input b = invoke rag_chain w ''user-session'' user_input b"

text \<open>The requests that the endpoint serves, one after the other.\<close>

fun serve ::
  "chain \<Rightarrow> (world \<times> string) list \<Rightarrow> (('s::linorder) vector_index) builder \<Rightarrow>
   (error + string) list \<times> ('s vector_index) builder" where
  "serve rag_chain [] b = ([], b)"
| "serve rag_chain ((w, user_input) # requests) b =
     (let (r, b1) = get_response rag_chain w user_input b;
          (rs, b2) = serve rag_chain requests b1
      in (r # rs, b2))"

section \<open>Sample data\<close>

text \<open>
  The review of the specification's scenario, an index that holds it, and services that
  answer from the context, fail in the generator, or fail in the rewriting model.
\<close>

definition sample_doc :: document where
  "sample_doc =
     \<lparr> page_content = ''Amazing phone with great camera quality and battery life.'',
       metadata = [(''product_name'', ''iPhone 13 Pro Max''), (''source'', ''flipkart_reviews'')] \<rparr>"

definition sample_index :: "nat vector_index" where
  "sample_index = \<lparr> indexed = [sample_doc], similarity = (\<lambda>query d. length (page_content d)) \<rparr>"

definition answering :: world where
  "answering =
     \<lparr> rewrite = (\<lambda>chat_history user_input. Inr user_input),
       index_fault = None,
       generate = (\<lambda>context chat_history user_input. Inr (''The camera is praised: '' @ context)) \<rparr>"

definition generator_down :: world where
  "generator_down =
     \<lparr> rewrite = (\<lambda>chat_history user_input. Inr user_input),
       index_fault = None,
       generate = (\<lambda>context chat_history user_input. Inl (UpstreamError ''generation failed'')) \<rparr>"

definition rewriter_down :: world where
  "rewriter_down =
     \<lparr> rewrite = (\<lambda>chat_history user_input. Inl (UpstreamError ''rewriting failed'')),
       index_fault = None,
       generate = (\<lambda>context chat_history user_input. Inr (''The camera is praised: '' @ context)) \<rparr>"

definition sample_question :: string where
  "sample_question = ''Tell me about iPhone 13 camera''"

definition sample_answer :: string where
  "sample_answer =
     ''The camera is praised: Amazing phone with great camera quality and battery life.''"

definition no_turns :: "string \<Rightarrow> (nat vector_index) builder" where
  "no_turns sid = \<lparr> vector_store = sample_index, history_store = [(sid, 0)], heap = [Nil] \<rparr>"

definition one_turn :: "string \<Rightarrow> (nat vector_index) builder" where
  "one_turn sid =
     \<lparr> vector_store = sample_index, history_store = [(sid, 0)],
       heap = [HumanMessage sample_question, AIMessage sample_answer] # [] \<rparr>"

definition two_turns :: "string \<Rightarrow> (nat vector_index) builder" where
  "two_turns sid =
     \<lparr> vector_store = sample_index, history_store = [(sid, 0)],
       heap = [HumanMessage sample_question, AIMessage sample_answer,
               HumanMessage ''Is the battery good?'', AIMessage sample_answer] # [] \<rparr>"

definition six_reviews :: "nat vector_index" where
  "six_reviews =
     \<lparr> indexed = [\<lparr> page_content = ''a'', metadata = [] \<rparr>,
                  \<lparr> page_content = ''bbb'', metadata = [] \<rparr>,
                  \<lparr> page_content = ''cc'', metadata = [] \<rparr>,
                  \<lparr> page_content = ''dddddd'', metadata = [] \<rparr>,
                  \<lparr> page_content = ''eeee'', metadata = [] \<rparr>,
                  \<lparr> page_content = ''fffff'', metadata = [] \<rparr>],
       similarity = (\<lambda>query d. length (page_content d)) \<rparr>"

definition two_sessions :: "(nat vector_index) builder" where
  "two_sessions =
     \<lparr> vector_store = sample_index, history_store = [(''s1'', 0), (''s2'', 1)],
       heap = [HumanMessage sample_question, AIMessage sample_answer] # [Nil] \<rparr>"

section \<open>Properties of the converter\<close>

lemma dropWhile_hd_not: "dropWhile P xs \<noteq> [] \<Longrightarrow> \<not> P (hd (dropWhile P xs))"
  by (simp add: hd_dropWhile)

lemma dropWhile_rev_fixed:
  assumes "xs = [] \<or> \<not> P (hd xs)"
  shows "rev (dropWhile P (rev xs)) = [] \<or> \<not> P (hd (rev (dropWhile P (rev xs))))"
proof (cases "dropWhile P (rev xs) = []")
  case True
  then show ?thesis by simp
next
  case False
  then obtain ys zs where "rev xs = ys @ zs" "dropWhile P (rev xs) = zs" "zs \<noteq> []"
    by (metis takeWhile_dropWhile_id)
  then have "xs = rev zs @ rev ys" by (metis rev_append rev_rev_ident)
  with \<open>zs \<noteq> []\<close> assms have "\<not> P (hd (rev zs))" by (cases "rev zs") auto
  with \<open>dropWhile P (rev xs) = zs\<close> show ?thesis by simp
qed

lemma dropWhile_fixed: "xs = [] \<or> \<not> P (hd xs) \<Longrightarrow> dropWhile P xs = xs"
  by (cases xs) auto

lemma strip_idem: "strip (strip s) = strip s"
proof -
  let ?t = "dropWhile py_isspace s"
  let ?u = "dropWhile py_isspace (rev ?t)"
  have t: "?t = [] \<or> \<not> py_isspace (hd ?t)" using dropWhile_hd_not by blast
  have u: "rev ?u = [] \<or> \<not> py_isspace (hd (rev ?u))" by (rule dropWhile_rev_fixed[where P = py_isspace and xs = "dropWhile py_isspace s", OF t])
  have 1: "dropWhile py_isspace (rev ?u) = rev ?u"
    using u by (rule dropWhile_fixed)
  have 2: "dropWhile py_isspace ?u = ?u" by simp
  show ?thesis unfolding strip_def using 1 2 by simp
qed

lemma strip_not_all_space: "strip s \<noteq> [] \<Longrightarrow> \<not> list_all py_isspace (strip s)"
proof -
  assume a: "strip s \<noteq> []"
  let ?u = "dropWhile py_isspace (rev (dropWhile py_isspace s))"
  from a have "?u \<noteq> []" by (simp add: strip_def)
  then have "\<not> py_isspace (hd ?u)" by (rule dropWhile_hd_not)
  moreover have "hd ?u \<in> set (strip s)" using \<open>?u \<noteq> []\<close> by (simp add: strip_def)
  ultimately show ?thesis by (auto simp: list_all_iff)
qed

lemma convert_mem:
  "d \<in> set (convert df) \<Longrightarrow>
     \<exists>r \<in> set df. \<exists>s t. review r = Some s \<and> product_title r = Some t \<and> 10 < length (strip s) \<and>
        d = \<lparr> page_content = strip s,
              metadata = [(''product_name'', strip t), (''source'', ''flipkart_reviews'')] \<rparr>"
  by (fastforce simp: convert_def nonblank_def dropna_def mk_document_def py_str_def)

lemma convert_append: "convert (xs @ ys) = convert xs @ convert ys"
  by (simp add: convert_def nonblank_def dropna_def)

lemma convert_short: "review r = Some s \<Longrightarrow> length (strip s) \<le> 10 \<Longrightarrow> convert [r] = []"
  by (simp add: convert_def nonblank_def dropna_def py_str_def)

lemma convert_null: "review r = None \<or> product_title r = None \<Longrightarrow> convert [r] = []"
  by (auto simp: convert_def nonblank_def dropna_def py_str_def)

lemma convert_eq_filter:
  "convert df = map mk_document (filter (\<lambda>r. case review r of None \<Rightarrow> False | Some s \<Rightarrow> product_title r \<noteq> None \<and> 10 < length (strip s)) df)"
  unfolding convert_def nonblank_def dropna_def
  by (induction df) (auto simp: py_str_def split: option.splits)

lemma strip_sample: "strip ''  Great product, works well  '' = ''Great product, works well''"
  by (simp add: strip_def py_isspace_def)

lemma strip_sample_title: "strip '' Phone X'' = ''Phone X''"
  by (simp add: strip_def py_isspace_def)

lemma strip_short: "strip ''Review 1'' = ''Review 1''"
  by (simp add: strip_def py_isspace_def)

lemma strip_blank: "strip ''   '' = []"
  by (simp add: strip_def py_isspace_def)

lemma convert_sample:
  "convert [\<lparr> product_title = Some '' Phone X'', review = Some ''  Great product, works well  '' \<rparr>,
            \<lparr> product_title = Some ''Phone Y'', review = Some ''Review 1'' \<rparr>,
            \<lparr> product_title = Some ''Phone Z'', review = None \<rparr>,
            \<lparr> product_title = Some ''Phone W'', review = Some ''   '' \<rparr>] =
     [\<lparr> page_content = ''Great product, works well'',
        metadata = [(''product_name'', ''Phone X''), (''source'', ''flipkart_reviews'')] \<rparr>]"
  by (simp add: convert_def nonblank_def dropna_def mk_document_def py_str_def
        strip_sample strip_sample_title strip_short strip_blank)

text \<open>
  C6. Every document that \<open>convert\<close> produces has content that is not empty and not
  whitespace-only, whose stripped length is greater than 10; it comes from a row whose
  review and title are both present, its content is the stripped review, and its metadata
  carries \<open>product_name\<close> (the stripped title) and \<open>source\<close>. The documents are exactly
  those of the rows with a review, a title and a stripped review longer than 10, in
  order: every other row is excluded.
\<close>

theorem convert_quality_filter:
  "(\<forall>d \<in> set (convert df).
      page_content d \<noteq> [] \<and> \<not> list_all py_isspace (page_content d) \<and>
      10 < length (strip (page_content d)) \<and>
      (\<exists>r \<in> set df. \<exists>s t. review r = Some s \<and> product_title r = Some t \<and>
          page_content d = strip s \<and>
          map_of (metadata d) ''product_name'' = Some (strip t)) \<and>
      map_of (metadata d) ''source'' = Some ''flipkart_reviews'')
   \<and> convert df =
       map mk_document
         (filter (\<lambda>r. case review r of None \<Rightarrow> False
                       | Some s \<Rightarrow> product_title r \<noteq> None \<and> 10 < length (strip s)) df)"
proof (intro conjI ballI)
  fix d assume "d \<in> set (convert df)"
  then obtain r s t where r: "r \<in> set df" "review r = Some s" "product_title r = Some t"
      "10 < length (strip s)"
      "d = \<lparr> page_content = strip s,
              metadata = [(''product_name'', strip t), (''source'', ''flipkart_reviews'')] \<rparr>"
    using convert_mem by blast
  then have pc: "page_content d = strip s" by simp
  with r(4) show "page_content d \<noteq> []" by auto
  then show "\<not> list_all py_isspace (page_content d)"
    unfolding pc by (rule strip_not_all_space)
  show "10 < length (strip (page_content d))"
    unfolding pc strip_idem by (rule r(4))
  have "map_of (metadata d) ''product_name'' = Some (strip t)" using r(5) by simp
  with r pc show "\<exists>r \<in> set df. \<exists>s t. review r = Some s \<and> product_title r = Some t \<and>
          page_content d = strip s \<and>
          map_of (metadata d) ''product_name'' = Some (strip t)"
    by blast
  show "map_of (metadata d) ''source'' = Some ''flipkart_reviews''" using r(5) by simp
next
  show "convert df =
       map mk_document
         (filter (\<lambda>r. case review r of None \<Rightarrow> False
                       | Some s \<Rightarrow> product_title r \<noteq> None \<and> 10 < length (strip s)) df)"
    by (rule convert_eq_filter)
qed

theorem convert_quality_filter_witness:
  "convert [\<lparr> product_title = Some '' Phone X'', review = Some ''  Great product, works well  '' \<rparr>,
            \<lparr> product_title = Some ''Phone Y'', review = Some ''Review 1'' \<rparr>,
            \<lparr> product_title = Some ''Phone Z'', review = None \<rparr>,
            \<lparr> product_title = Some ''Phone W'', review = Some ''   '' \<rparr>] =
     [\<lparr> page_content = ''Great product, works well'',
        metadata = [(''product_name'', ''Phone X''), (''source'', ''flipkart_reviews'')] \<rparr>]
   \<and> 10 < length (strip ''Great product, works well'')
   \<and> \<not> list_all py_isspace ''Great product, works well''"
proof -
  let ?df = "[\<lparr> product_title = Some '' Phone X'', review = Some ''  Great product, works well  '' \<rparr>,
            \<lparr> product_title = Some ''Phone Y'', review = Some ''Review 1'' \<rparr>,
            \<lparr> product_title = Some ''Phone Z'', review = None \<rparr>,
            \<lparr> product_title = Some ''Phone W'', review = Some ''   '' \<rparr>]"
  let ?d = "\<lparr> page_content = ''Great product, works well'',
        metadata = [(''product_name'', ''Phone X''), (''source'', ''flipkart_reviews'')] \<rparr>"
  have c: "convert ?df = [?d]" by (rule convert_sample)
  then have "?d \<in> set (convert ?df)" by simp
  with convert_quality_filter [of ?df]
  have "\<not> list_all py_isspace (page_content ?d) \<and> 10 < length (strip (page_content ?d))"
    by blast
  with c show ?thesis by simp
qed

section \<open>Properties of the configuration check\<close>

lemma join_mentions: "x \<in> set xs \<Longrightarrow> \<exists>a b. join sep xs = a @ x @ b"
proof (induction sep xs rule: join.induct)
  case (1 sep)
  then show ?case by simp
next
  case (2 sep y)
  then have "join sep [y] = [] @ x @ []" by simp
  then show ?case by blast
next
  case (3 sep y z zs)
  show ?case
  proof (cases "x = y")
    case True
    then have "join sep (y # z # zs) = [] @ x @ (sep @ join sep (z # zs))" by simp
    then show ?thesis by blast
  next
    case False
    with "3.prems" have "x \<in> set (z # zs)" by simp
    then obtain a b where "join sep (z # zs) = a @ x @ b" using "3.IH" by blast
    then have "join sep (y # z # zs) = (y @ sep @ a) @ x @ b" by simp
    then show ?thesis by blast
  qed
qed

lemma missing_vars_eq:
  "missing_vars cfg =
     (if ASTRA_DB_API_ENDPOINT cfg = None then [''ASTRA_DB_API_ENDPOINT''] else []) @
     (if ASTRA_DB_APPLICATION_TOKEN cfg = None then [''ASTRA_DB_APPLICATION_TOKEN''] else []) @
     (if ASTRA_DB_KEYSPACE cfg = None then [''ASTRA_DB_KEYSPACE''] else [])"
  by (simp add: missing_vars_def required_vars_def)

lemma init_ingestor_invalid:
  "validate_config cfg = Inl e \<Longrightarrow> init_ingestor mk_embedding mk_vstore cfg = Inl e"
  by (simp add: init_ingestor_def)

text \<open>
  C8, as amended. The check covers the three AstraDB variables. If one of them is unset,
  \<open>_validate_config\<close> raises a \<open>ValueError\<close> whose message contains the name of each
  unset one of the three, and constructing the \<open>DataIngestor\<close> raises that error whatever
  the external services would do; if all three are set, the check raises nothing.
\<close>

theorem validate_config_astra:
  "missing_vars cfg =
     (if ASTRA_DB_API_ENDPOINT cfg = None then [''ASTRA_DB_API_ENDPOINT''] else []) @
     (if ASTRA_DB_APPLICATION_TOKEN cfg = None then [''ASTRA_DB_APPLICATION_TOKEN''] else []) @
     (if ASTRA_DB_KEYSPACE cfg = None then [''ASTRA_DB_KEYSPACE''] else [])
   \<and> (ASTRA_DB_API_ENDPOINT cfg = None \<or> ASTRA_DB_APPLICATION_TOKEN cfg = None \<or>
        ASTRA_DB_KEYSPACE cfg = None \<longrightarrow>
        (\<exists>msg. validate_config cfg = Inl (ValueError msg) \<and>
               init_ingestor mk_embedding mk_vstore cfg = Inl (ValueError msg) \<and>
               (\<forall>name \<in> set (missing_vars cfg). \<exists>a b. msg = a @ name @ b)))
   \<and> (ASTRA_DB_API_ENDPOINT cfg \<noteq> None \<and> ASTRA_DB_APPLICATION_TOKEN cfg \<noteq> None \<and>
        ASTRA_DB_KEYSPACE cfg \<noteq> None \<longrightarrow> validate_config cfg = Inr ())"
proof (intro conjI impI)
  show "missing_vars cfg =
     (if ASTRA_DB_API_ENDPOINT cfg = None then [''ASTRA_DB_API_ENDPOINT''] else []) @
     (if ASTRA_DB_APPLICATION_TOKEN cfg = None then [''ASTRA_DB_APPLICATION_TOKEN''] else []) @
     (if ASTRA_DB_KEYSPACE cfg = None then [''ASTRA_DB_KEYSPACE''] else [])"
    by (rule missing_vars_eq)
next
  assume "ASTRA_DB_API_ENDPOINT cfg = None \<or> ASTRA_DB_APPLICATION_TOKEN cfg = None \<or>
          ASTRA_DB_KEYSPACE cfg = None"
  then have ne: "missing_vars cfg \<noteq> []" by (auto simp: missing_vars_eq)
  let ?msg = "''Missing required environment variables: '' @ join '', '' (missing_vars cfg)"
  have v: "validate_config cfg = Inl (ValueError ?msg)"
    using ne by (simp add: validate_config_def)
  have i: "init_ingestor mk_embedding mk_vstore cfg = Inl (ValueError ?msg)"
    using v by (rule init_ingestor_invalid)
  have "\<exists>a b. ?msg = a @ name @ b" if "name \<in> set (missing_vars cfg)" for name
  proof -
    from that obtain a b where "join '', '' (missing_vars cfg) = a @ name @ b"
      using join_mentions by blast
    then have "?msg = (''Missing required environment variables: '' @ a) @ name @ b" by simp
    then show ?thesis by blast
  qed
  with v i show "\<exists>msg. validate_config cfg = Inl (ValueError msg) \<and>
               init_ingestor mk_embedding mk_vstore cfg = Inl (ValueError msg) \<and>
               (\<forall>name \<in> set (missing_vars cfg). \<exists>a b. msg = a @ name @ b)"
    by blast
next
  assume "ASTRA_DB_API_ENDPOINT cfg \<noteq> None \<and> ASTRA_DB_APPLICATION_TOKEN cfg \<noteq> None \<and>
        ASTRA_DB_KEYSPACE cfg \<noteq> None"
  then show "validate_config cfg = Inr ()"
    by (simp add: validate_config_def missing_vars_eq)
qed

theorem validate_config_astra_witness:
  "validate_config \<lparr> ASTRA_DB_API_ENDPOINT = Some ''https://db'', ASTRA_DB_APPLICATION_TOKEN = None,
       ASTRA_DB_KEYSPACE = None, GROQ_API_KEY = Some ''gsk'' \<rparr> =
     Inl (ValueError ''Missing required environment variables: ASTRA_DB_APPLICATION_TOKEN, ASTRA_DB_KEYSPACE'')
   \<and> init_ingestor Inr connects \<lparr> ASTRA_DB_API_ENDPOINT = Some ''https://db'', ASTRA_DB_APPLICATION_TOKEN = None,
       ASTRA_DB_KEYSPACE = None, GROQ_API_KEY = Some ''gsk'' \<rparr> =
     Inl (ValueError ''Missing required environment variables: ASTRA_DB_APPLICATION_TOKEN, ASTRA_DB_KEYSPACE'')
   \<and> validate_config \<lparr> ASTRA_DB_API_ENDPOINT = Some ''https://db'', ASTRA_DB_APPLICATION_TOKEN = Some ''tok'',
       ASTRA_DB_KEYSPACE = Some ''ks'', GROQ_API_KEY = Some ''gsk'' \<rparr> = Inr ()"
proof -
  let ?c = "\<lparr> ASTRA_DB_API_ENDPOINT = Some ''https://db'', ASTRA_DB_APPLICATION_TOKEN = None,
       ASTRA_DB_KEYSPACE = None, GROQ_API_KEY = Some ''gsk'' \<rparr>"
  let ?d = "\<lparr> ASTRA_DB_API_ENDPOINT = Some ''https://db'', ASTRA_DB_APPLICATION_TOKEN = Some ''tok'',
       ASTRA_DB_KEYSPACE = Some ''ks'', GROQ_API_KEY = Some ''gsk'' \<rparr>"
  have "ASTRA_DB_API_ENDPOINT ?c = None \<or> ASTRA_DB_APPLICATION_TOKEN ?c = None \<or>
        ASTRA_DB_KEYSPACE ?c = None" by simp
  with validate_config_astra [of ?c Inr connects] obtain msg where
    msg: "validate_config ?c = Inl (ValueError msg)"
         "init_ingestor Inr connects ?c = Inl (ValueError msg)"
    by blast
  have "validate_config ?c = Inl (ValueError
          ''Missing required environment variables: ASTRA_DB_APPLICATION_TOKEN, ASTRA_DB_KEYSPACE'')"
    by (simp add: validate_config_def missing_vars_def required_vars_def)
  with msg have c: "init_ingestor Inr connects ?c = Inl (ValueError
          ''Missing required environment variables: ASTRA_DB_APPLICATION_TOKEN, ASTRA_DB_KEYSPACE'')"
    "validate_config ?c = Inl (ValueError
          ''Missing required environment variables: ASTRA_DB_APPLICATION_TOKEN, ASTRA_DB_KEYSPACE'')"
    by simp_all
  have "ASTRA_DB_API_ENDPOINT ?d \<noteq> None \<and> ASTRA_DB_APPLICATION_TOKEN ?d \<noteq> None \<and>
        ASTRA_DB_KEYSPACE ?d \<noteq> None" by simp
  with validate_config_astra [of ?d Inr connects] have "validate_config ?d = Inr ()" by blast
  with c show ?thesis by blast
qed

text \<open>
  The check does not cover \<open>GROQ_API_KEY\<close>, which the configuration module lists as
  required: with the three AstraDB variables set and \<open>GROQ_API_KEY\<close> unset, the check
  passes and the \<open>DataIngestor\<close> is constructed.
\<close>

theorem groq_key_not_validated:
  "GROQ_API_KEY \<lparr> ASTRA_DB_API_ENDPOINT = Some ''https://db'', ASTRA_DB_APPLICATION_TOKEN = Some ''tok'',
       ASTRA_DB_KEYSPACE = Some ''ks'', GROQ_API_KEY = None \<rparr> = None
   \<and> validate_config \<lparr> ASTRA_DB_API_ENDPOINT = Some ''https://db'', ASTRA_DB_APPLICATION_TOKEN = Some ''tok'',
       ASTRA_DB_KEYSPACE = Some ''ks'', GROQ_API_KEY = None \<rparr> = Inr ()
   \<and> init_ingestor Inr connects \<lparr> ASTRA_DB_API_ENDPOINT = Some ''https://db'', ASTRA_DB_APPLICATION_TOKEN = Some ''tok'',
       ASTRA_DB_KEYSPACE = Some ''ks'', GROQ_API_KEY = None \<rparr> =
       Inr \<lparr> embedding = ''BAAI/bge-base-en-v1.5'', vstore = ''flipkart_database'' \<rparr>"
  by (simp add: validate_config_def missing_vars_def required_vars_def init_ingestor_def
        connects_def EMBEDDING_MODEL_def)

section \<open>Properties of the ingestion loop\<close>




















section \<open>Properties of the session store and the chain\<close>

lemma map_of_inj:
  assumes "distinct (map snd hs)" "map_of hs x = Some a" "map_of hs y = Some a"
  shows "x = y"
proof -
  from assms(2,3) have "(x, a) \<in> set hs" "(y, a) \<in> set hs" by (auto dest: map_of_SomeD)
  moreover from assms(1) have "inj_on snd (set hs)" by (simp add: distinct_map)
  ultimately have "(x, a) = (y, a)" by (intro inj_onD[of snd "set hs"]) simp_all
  then show ?thesis by simp
qed

lemma wf_lookup: "wf b \<Longrightarrow> map_of (history_store b) sid = Some a \<Longrightarrow> a < length (heap b)"
  by (auto simp: wf_def list_all_iff dest: map_of_SomeD)

lemma get_history_seen:
  "map_of (history_store b) sid = Some a \<Longrightarrow> get_history sid b = (a, b)"
  by (simp add: get_history_def)

lemma get_history_unseen:
  "map_of (history_store b) sid = None \<Longrightarrow>
     get_history sid b =
       (length (heap b),
        b\<lparr> history_store := history_store b @ [(sid, length (heap b))], heap := heap b @ [Nil] \<rparr>)"
  by (simp add: get_history_def Let_def)

lemma get_history_lookup:
  "get_history sid b = (a, b1) \<Longrightarrow> map_of (history_store b1) sid = Some a"
  by (cases "map_of (history_store b) sid")
     (auto simp: get_history_def Let_def map_add_def)

lemma get_history_wf:
  assumes "wf b" "get_history sid b = (a, b1)"
  shows "wf b1"
proof (cases "map_of (history_store b) sid")
  case None
  then have fresh: "sid \<notin> fst ` set (history_store b)" by (simp add: map_of_eq_None_iff)
  have "length (heap b) \<notin> snd ` set (history_store b)"
    using assms(1) by (auto simp: wf_def list_all_iff)
  with None fresh assms show ?thesis
    by (auto simp: get_history_unseen wf_def list_all_iff less_Suc_eq)
next
  case (Some a')
  with assms show ?thesis by (simp add: get_history_seen)
qed

lemma get_history_sessions:
  assumes "wf b" "get_history sid b = (a, b1)"
  shows "session_messages sid' b1 = session_messages sid' b"
proof (cases "map_of (history_store b) sid")
  case None
  show ?thesis
  proof (cases "map_of (history_store b) sid'")
    case n: None
    with None assms(2) show ?thesis
      by (auto simp: get_history_unseen session_messages_def messages_at_def map_add_def
              map_of_append split: option.splits if_splits)
  next
    case (Some a')
    then have "a' < length (heap b)" using assms(1) by (rule wf_lookup[rotated])
    with None Some assms(2) show ?thesis
      by (auto simp: get_history_unseen session_messages_def messages_at_def
              nth_append split: option.splits)
  qed
next
  case (Some a')
  with assms show ?thesis by (simp add: get_history_seen)
qed

lemma get_history_vector_store:
  "get_history sid b = (a, b1) \<Longrightarrow> vector_store b1 = vector_store b"
  by (cases "map_of (history_store b) sid") (auto simp: get_history_def Let_def)

lemma get_history_messages:
  assumes "wf b" "get_history sid b = (a, b1)"
  shows "messages_at a b1 = session_messages sid b"
proof -
  have "session_messages sid b1 = messages_at a b1"
    using get_history_lookup[OF assms(2)] by (simp add: session_messages_def)
  with get_history_sessions[OF assms, of sid] show ?thesis by simp
qed

lemma add_messages_wf: "wf b \<Longrightarrow> wf (add_messages a ms b)"
  by (simp add: wf_def add_messages_def)

lemma add_messages_session:
  assumes "wf b" "map_of (history_store b) sid = Some a"
  shows "session_messages sid' (add_messages a ms b) =
           (if sid' = sid then session_messages sid b @ ms else session_messages sid' b)"
proof (cases "sid' = sid")
  case True
  with assms wf_lookup[OF assms] show ?thesis
    by (simp add: session_messages_def messages_at_def add_messages_def)
next
  case False
  show ?thesis
  proof (cases "map_of (history_store b) sid'")
    case None
    with False show ?thesis by (simp add: session_messages_def add_messages_def)
  next
    case (Some a')
    have "a' \<noteq> a"
      using map_of_inj[of "history_store b" sid' a sid] assms Some False
      by (auto simp: wf_def)
    with False Some show ?thesis
      by (simp add: session_messages_def messages_at_def add_messages_def)
  qed
qed

lemma invoke_cases:
  assumes g: "get_history sid b = (a, b1)" and i: "invoke c w sid inp b = (r, b')"
  shows "(\<exists>e. r = Inl e \<and> b' = b1) \<or>
         (\<exists>docs answer. r = Inr answer \<and>
            generate w (assemble docs) (messages_at a b1) inp = Inr answer \<and>
            b' = add_messages a [HumanMessage inp, AIMessage answer] b1)"
proof (cases "standalone_query w (messages_at a b1) inp")
  case (Inl e)
  with g have "invoke c w sid inp b = (Inl e, b1)" by (simp add: invoke_def)
  with i have "r = Inl e \<and> b' = b1" by simp
  then show ?thesis by blast
next
  case q: (Inr query)
  show ?thesis
  proof (cases "retrieve (chain_retriever c) w (vector_store b1) query")
    case (Inl e)
    with g q have "invoke c w sid inp b = (Inl e, b1)" by (simp add: invoke_def)
    with i have "r = Inl e \<and> b' = b1" by simp
    then show ?thesis by blast
  next
    case d: (Inr docs)
    show ?thesis
    proof (cases "generate w (assemble docs) (messages_at a b1) inp")
      case (Inl e)
      with g q d have "invoke c w sid inp b = (Inl e, b1)" by (simp add: invoke_def)
      with i have "r = Inl e \<and> b' = b1" by simp
      then show ?thesis by blast
    next
      case (Inr answer)
      with g q d have "invoke c w sid inp b =
          (Inr answer, add_messages a [HumanMessage inp, AIMessage answer] b1)"
        by (simp add: invoke_def)
      with i have "r = Inr answer \<and> b' = add_messages a [HumanMessage inp, AIMessage answer] b1"
        by simp
      with Inr show ?thesis by blast
    qed
  qed
qed

lemma invoke_step:
  assumes "wf b" "invoke c w sid inp b = (r, b')"
  shows "wf b' \<and> session_messages sid' b' = session_messages sid' b @ recorded sid' ((sid, w, inp), r)"
proof -
  obtain a b1 where g: "get_history sid b = (a, b1)" by (cases "get_history sid b")
  have wf1: "wf b1" using assms(1) g by (rule get_history_wf)
  have s1: "session_messages sid' b1 = session_messages sid' b" for sid'
    using assms(1) g by (rule get_history_sessions)
  have l1: "map_of (history_store b1) sid = Some a" using g by (rule get_history_lookup)
  from invoke_cases[OF g assms(2)] show ?thesis
  proof (elim disjE exE conjE)
    fix e assume "r = Inl e" "b' = b1"
    with wf1 s1 show ?thesis by simp
  next
    fix docs answer
    assume "r = Inr answer" "b' = add_messages a [HumanMessage inp, AIMessage answer] b1"
    with wf1 s1 l1 show ?thesis
      by (simp add: add_messages_wf add_messages_session)
  qed
qed

lemma invoke_all_sessions:
  "wf b \<Longrightarrow> invoke_all c calls b = (rs, b') \<Longrightarrow>
     wf b' \<and> length rs = length calls \<and>
     session_messages sid' b' =
       session_messages sid' b @ concat (map (recorded sid') (zip calls rs))"
proof (induction calls arbitrary: b rs b')
  case Nil
  then show ?case by simp
next
  case (Cons call calls)
  obtain sid w inp where call: "call = (sid, w, inp)" by (cases call)
  obtain r b1 where i: "invoke c w sid inp b = (r, b1)" by (cases "invoke c w sid inp b")
  obtain rs1 b2 where a: "invoke_all c calls b1 = (rs1, b2)" by (cases "invoke_all c calls b1")
  from Cons.prems(2) call i a have eq: "rs = r # rs1" "b' = b2" by simp_all
  from invoke_step[OF Cons.prems(1) i, of sid']
  have wf1: "wf b1" and s1: "session_messages sid' b1 =
      session_messages sid' b @ recorded sid' ((sid, w, inp), r)" by simp_all
  from Cons.IH[OF wf1 a] eq s1 call show ?case by simp
qed

lemma get_history_keeps:
  "map_of (history_store b) sid' = Some a' \<Longrightarrow> get_history sid b = (a, b1) \<Longrightarrow>
     map_of (history_store b1) sid' = Some a'"
  by (cases "map_of (history_store b) sid") (auto simp: get_history_def Let_def map_add_def)

lemma get_history_other:
  "sid' \<noteq> sid \<Longrightarrow> get_history sid b = (a, b1) \<Longrightarrow>
     map_of (history_store b1) sid' = map_of (history_store b) sid'"
  by (cases "map_of (history_store b) sid")
     (auto simp: get_history_def Let_def map_add_def split: option.splits)

lemma add_messages_store: "history_store (add_messages a ms b) = history_store b"
  by (simp add: add_messages_def)

lemma invoke_store:
  assumes "invoke c w sid inp b = (r, b')"
  shows "history_store b' = history_store (snd (get_history sid b))"
proof -
  obtain a b1 where g: "get_history sid b = (a, b1)" by (cases "get_history sid b")
  from invoke_cases[OF g assms] show ?thesis using g by (auto simp: add_messages_store)
qed

lemma invoke_keeps:
  assumes "map_of (history_store b) sid' = Some a'" "invoke c w sid inp b = (r, b')"
  shows "map_of (history_store b') sid' = Some a'"
proof -
  obtain a b1 where g: "get_history sid b = (a, b1)" by (cases "get_history sid b")
  from get_history_keeps[OF assms(1) g] invoke_store[OF assms(2)] g show ?thesis by simp
qed

lemma invoke_other:
  assumes "sid' \<noteq> sid" "invoke c w sid inp b = (r, b')"
  shows "map_of (history_store b') sid' = map_of (history_store b) sid'"
proof -
  obtain a b1 where g: "get_history sid b = (a, b1)" by (cases "get_history sid b")
  from get_history_other[OF assms(1) g] invoke_store[OF assms(2)] g show ?thesis by simp
qed

lemma invoke_all_keeps:
  "map_of (history_store b) sid' = Some a' \<Longrightarrow> invoke_all c calls b = (rs, b') \<Longrightarrow>
     map_of (history_store b') sid' = Some a'"
proof (induction calls arbitrary: b rs b')
  case Nil
  then show ?case by simp
next
  case (Cons call calls)
  obtain sid w inp where call: "call = (sid, w, inp)" by (cases call)
  obtain r b1 where i: "invoke c w sid inp b = (r, b1)" by (cases "invoke c w sid inp b")
  obtain rs1 b2 where a: "invoke_all c calls b1 = (rs1, b2)" by (cases "invoke_all c calls b1")
  from Cons.prems(2) call i a have eq: "b' = b2" by simp
  from Cons.IH[OF invoke_keeps[OF Cons.prems(1) i] a] eq show ?case by simp
qed

lemma add_messages_at:
  "a < length (heap b) \<Longrightarrow> messages_at a (add_messages a ms b) = messages_at a b @ ms"
  by (simp add: messages_at_def add_messages_def)

lemma add_messages_at_other:
  "a' \<noteq> a \<Longrightarrow> messages_at a' (add_messages a ms b) = messages_at a' b"
  by (simp add: messages_at_def add_messages_def)

lemma get_history_twice: "get_history sid b = (a, b1) \<Longrightarrow> get_history sid b1 = (a, b1)"
  by (rule get_history_seen, rule get_history_lookup)

lemma get_history_after_calls:
  assumes "get_history sid b = (a, b1)" "invoke_all c calls b1 = (rs, b2)"
  shows "get_history sid b2 = (a, b2)"
proof -
  have "map_of (history_store b1) sid = Some a" using assms(1) by (rule get_history_lookup)
  then have "map_of (history_store b2) sid = Some a" using assms(2) by (rule invoke_all_keeps)
  then show ?thesis by (rule get_history_seen)
qed

lemma get_history_after_append:
  assumes "wf b" "get_history sid b = (a, b1)"
  shows "get_history sid (add_messages a ms b1) = (a, add_messages a ms b1)"
    and "messages_at a (add_messages a ms b1) = messages_at a b1 @ ms"
proof -
  have l: "map_of (history_store b1) sid = Some a" using assms(2) by (rule get_history_lookup)
  have "wf b1" using assms by (rule get_history_wf)
  then have lt: "a < length (heap b1)" using l by (rule wf_lookup)
  from l have "map_of (history_store (add_messages a ms b1)) sid = Some a"
    by (simp add: add_messages_store)
  then show "get_history sid (add_messages a ms b1) = (a, add_messages a ms b1)"
    by (rule get_history_seen)
  from lt show "messages_at a (add_messages a ms b1) = messages_at a b1 @ ms"
    by (rule add_messages_at)
qed

lemma get_history_creates:
  assumes "wf b" "map_of (history_store b) sid = None" "get_history sid b = (a, b1)"
  shows "map_of (history_store b1) sid = Some a \<and> messages_at a b1 = [] \<and>
        a \<notin> snd ` set (history_store b) \<and> length (heap b1) = Suc (length (heap b))"
proof -
  from assms(2,3) have g: "a = length (heap b)"
    "b1 = b\<lparr> history_store := history_store b @ [(sid, length (heap b))], heap := heap b @ [Nil] \<rparr>"
    by (auto simp: get_history_unseen)
  from assms(1) have "a \<notin> snd ` set (history_store b)"
    unfolding g(1) by (auto simp: wf_def list_all_iff)
  moreover have "map_of (history_store b1) sid = Some a" using assms(3) by (rule get_history_lookup)
  ultimately show ?thesis using g by (simp add: messages_at_def)
qed

lemma append_isolated:
  assumes "wf b" "sid1 \<noteq> sid2" "get_history sid1 b = (a1, b1)"
  shows "session_messages sid2 (add_messages a1 ms b1) = session_messages sid2 b"
    and "session_messages sid1 (add_messages a1 ms b1) = session_messages sid1 b @ ms"
proof -
  have wf1: "wf b1" using assms(1,3) by (rule get_history_wf)
  have l1: "map_of (history_store b1) sid1 = Some a1" using assms(3) by (rule get_history_lookup)
  have s: "session_messages sid' b1 = session_messages sid' b" for sid'
    using assms(1,3) by (rule get_history_sessions)
  show "session_messages sid2 (add_messages a1 ms b1) = session_messages sid2 b"
    using add_messages_session[OF wf1 l1, of sid2 ms] s assms(2) by auto
  show "session_messages sid1 (add_messages a1 ms b1) = session_messages sid1 b @ ms"
    using add_messages_session[OF wf1 l1, of sid1 ms] s by simp
qed

lemma other_holder_isolated:
  assumes "wf b" "sid1 \<noteq> sid2" "get_history sid1 b = (a1, b1)"
    and g2: "get_history sid2 (add_messages a1 ms b1) = (a2, b2)"
  shows "a2 \<noteq> a1 \<and> messages_at a2 b2 = session_messages sid2 b"
proof -
  have wf1: "wf b1" using assms(1,3) by (rule get_history_wf)
  have l1: "map_of (history_store b1) sid1 = Some a1" using assms(3) by (rule get_history_lookup)
  have wf2: "wf (add_messages a1 ms b1)" using wf1 by (rule add_messages_wf)
  have wf3: "wf b2" using wf2 g2 by (rule get_history_wf)
  have "map_of (history_store (add_messages a1 ms b1)) sid1 = Some a1"
    using l1 by (simp add: add_messages_store)
  then have k1: "map_of (history_store b2) sid1 = Some a1" using g2 by (rule get_history_keeps)
  have k2: "map_of (history_store b2) sid2 = Some a2" using g2 by (rule get_history_lookup)
  have "a2 \<noteq> a1"
    using map_of_inj[of "history_store b2" sid2 a1 sid1] k1 k2 wf3 assms(2) by (auto simp: wf_def)
  moreover have "messages_at a2 b2 = session_messages sid2 (add_messages a1 ms b1)"
    using wf2 g2 by (rule get_history_messages)
  ultimately show ?thesis using append_isolated(1)[OF assms(1-3), of ms] by simp
qed

lemma invoke_isolated:
  assumes "wf b" "sid1 \<noteq> sid2" "invoke c w sid1 inp b = (r, b')"
  shows "session_messages sid2 b' = session_messages sid2 b"
proof -
  have "session_messages sid2 b' =
      session_messages sid2 b @ recorded sid2 ((sid1, w, inp), r)"
    using invoke_step[OF assms(1,3), of sid2] by simp
  with assms(2) show ?thesis by (cases r) simp_all
qed




lemma recorded_same_session:
  "length answers = length reqs \<Longrightarrow>
   concat (map (recorded sid) (zip (map (\<lambda>(w, inp). (sid, w, inp)) reqs) (map Inr answers))) =
   concat (map (\<lambda>((w, inp), answer). [HumanMessage inp, AIMessage answer]) (zip reqs answers))"
proof (induction reqs arbitrary: answers)
  case Nil
  then show ?case by simp
next
  case (Cons req reqs)
  then obtain answer rest where "answers = answer # rest" by (cases answers) auto
  with Cons show ?case by (cases req) simp
qed

lemma turns_pairs:
  "turns (concat (map (\<lambda>((w, inp), answer). [HumanMessage inp, AIMessage answer]) (zip reqs answers)))
     = zip (map snd reqs) answers"
proof (induction reqs arbitrary: answers)
  case Nil
  then show ?case by simp
next
  case (Cons req reqs)
  then show ?case by (cases answers; cases req) auto
qed

lemma invoke_all_same_session:
  assumes "wf b"
    "invoke_all c (map (\<lambda>(w, inp). (sid, w, inp)) reqs) b = (map Inr answers, b')"
  shows "length answers = length reqs"
    and "session_messages sid b' =
          session_messages sid b @
          concat (map (\<lambda>((w, inp), answer). [HumanMessage inp, AIMessage answer]) (zip reqs answers))"
    and "session_messages sid b = [] \<Longrightarrow> turns (session_messages sid b') = zip (map snd reqs) answers"
proof -
  from invoke_all_sessions[OF assms, of sid]
  have len: "length (map Inr answers :: (error + string) list) =
             length (map (\<lambda>(w, inp). (sid, w, inp)) reqs)"
    and s: "session_messages sid b' = session_messages sid b @
       concat (map (recorded sid) (zip (map (\<lambda>(w, inp). (sid, w, inp)) reqs) (map Inr answers)))"
    by simp_all
  from len show l: "length answers = length reqs" by simp
  from s recorded_same_session[OF l, of sid]
  show s': "session_messages sid b' =
          session_messages sid b @
          concat (map (\<lambda>((w, inp), answer). [HumanMessage inp, AIMessage answer]) (zip reqs answers))"
    by simp
  assume "session_messages sid b = []"
  with s' show "turns (session_messages sid b') = zip (map snd reqs) answers"
    by (simp add: turns_pairs)
qed

lemma invoke_empty_history:
  assumes "wf b" "session_messages sid b = []" "get_history sid b = (a, b1)"
  shows "invoke c w sid inp b =
     (case retrieve (chain_retriever c) w (vector_store b) inp of
        Inl e \<Rightarrow> (Inl e, b1)
      | Inr docs \<Rightarrow>
          (case generate w (assemble docs) [] inp of
             Inl e \<Rightarrow> (Inl e, b1)
           | Inr answer \<Rightarrow>
               (Inr answer, add_messages a [HumanMessage inp, AIMessage answer] b1)))"
proof -
  have "messages_at a b1 = []" using get_history_messages[OF assms(1,3)] assms(2) by simp
  moreover have "vector_store b1 = vector_store b" using assms(3) by (rule get_history_vector_store)
  ultimately show ?thesis using assms(3)
    by (simp add: invoke_def standalone_query_def)
qed

lemma serve_invoke_all:
  "serve c reqs b = invoke_all c (map (\<lambda>(w, inp). (''user-session'', w, inp)) reqs) b"
  by (induction reqs arbitrary: b) (auto simp: get_response_def)

lemma recorded_user_session:
  "length rs = length reqs \<Longrightarrow>
   concat (map (recorded ''user-session'')
     (zip (map (\<lambda>(w, inp). (''user-session'', w, inp)) reqs) rs)) =
   concat (map (\<lambda>((w, inp), r). case r of Inl e \<Rightarrow> []
                                 | Inr answer \<Rightarrow> [HumanMessage inp, AIMessage answer]) (zip reqs rs))"
proof (induction reqs arbitrary: rs)
  case Nil
  then show ?case by simp
next
  case (Cons req reqs)
  then obtain r rest where "rs = r # rest" by (cases rs) auto
  with Cons show ?case by (cases req; cases r) simp_all
qed

lemma invoke_all_other:
  "\<forall>call \<in> set calls. fst call \<noteq> sid' \<Longrightarrow> invoke_all c calls b = (rs, b') \<Longrightarrow>
     map_of (history_store b') sid' = map_of (history_store b) sid'"
proof (induction calls arbitrary: b rs b')
  case Nil
  then show ?case by simp
next
  case (Cons call calls)
  obtain sid w inp where call: "call = (sid, w, inp)" by (cases call)
  obtain r b1 where i: "invoke c w sid inp b = (r, b1)" by (cases "invoke c w sid inp b")
  obtain rs1 b2 where a: "invoke_all c calls b1 = (rs1, b2)" by (cases "invoke_all c calls b1")
  from Cons.prems(2) call i a have eq: "b' = b2" by simp
  from Cons.prems(1) call have ne: "sid' \<noteq> sid" and rest: "\<forall>call \<in> set calls. fst call \<noteq> sid'"
    by auto
  from Cons.IH[OF rest a] invoke_other[OF ne i] eq show ?case by simp
qed

lemma invoke_all_store_fixed:
  "\<forall>call \<in> set calls. map_of (history_store b) (fst call) \<noteq> None \<Longrightarrow>
   invoke_all c calls b = (rs, b') \<Longrightarrow> history_store b' = history_store b"
proof (induction calls arbitrary: b rs b')
  case Nil
  then show ?case by simp
next
  case (Cons call calls)
  obtain sid w inp where call: "call = (sid, w, inp)" by (cases call)
  obtain r b1 where i: "invoke c w sid inp b = (r, b1)" by (cases "invoke c w sid inp b")
  obtain rs1 b2 where a: "invoke_all c calls b1 = (rs1, b2)" by (cases "invoke_all c calls b1")
  from Cons.prems(2) call i a have eq: "b' = b2" by simp
  from Cons.prems(1) call obtain ad where "map_of (history_store b) sid = Some ad" by auto
  then have "get_history sid b = (ad, b)" by (rule get_history_seen)
  with invoke_store[OF i] have st: "history_store b1 = history_store b" by simp
  with Cons.prems(1) have "\<forall>call \<in> set calls. map_of (history_store b1) (fst call) \<noteq> None" by simp
  from Cons.IH[OF this a] st eq show ?case by simp
qed

lemma serve_sessions:
  assumes "wf b" "serve c reqs b = (rs, b')"
  shows "length rs = length reqs"
    and "session_messages ''user-session'' b' =
       session_messages ''user-session'' b @
       concat (map (\<lambda>((w, inp), r). case r of Inl e \<Rightarrow> []
                                 | Inr answer \<Rightarrow> [HumanMessage inp, AIMessage answer]) (zip reqs rs))"
    and "sid \<noteq> ''user-session'' \<Longrightarrow> session_messages sid b' = session_messages sid b"
    and "sid \<noteq> ''user-session'' \<Longrightarrow> map_of (history_store b') sid = map_of (history_store b) sid"
proof -
  let ?calls = "map (\<lambda>(w, inp). (''user-session'', w, inp)) reqs"
  have ia: "invoke_all c ?calls b = (rs, b')" using assms(2) by (simp add: serve_invoke_all)
  from invoke_all_sessions[OF assms(1) ia] show len: "length rs = length reqs" by simp
  from invoke_all_sessions[OF assms(1) ia, of "''user-session''"] recorded_user_session[OF len]
  show "session_messages ''user-session'' b' =
       session_messages ''user-session'' b @
       concat (map (\<lambda>((w, inp), r). case r of Inl e \<Rightarrow> []
                                 | Inr answer \<Rightarrow> [HumanMessage inp, AIMessage answer]) (zip reqs rs))"
    by simp
  assume ne: "sid \<noteq> ''user-session''"
  then have calls: "\<forall>call \<in> set ?calls. fst call \<noteq> sid" by auto
  have "map (recorded sid) (zip ?calls rs) = map (\<lambda>x. []) (zip ?calls rs)"
  proof (rule map_cong[OF refl])
    fix x assume "x \<in> set (zip ?calls rs)"
    then have "fst x \<in> set ?calls" by (metis prod.collapse set_zip_leftD)
    with ne obtain w inp r where "x = ((''user-session'', w, inp), r)"
      by (cases x) auto
    with ne show "recorded sid x = []" by (cases r) auto
  qed
  then have "concat (map (recorded sid) (zip ?calls rs)) = []" by simp
  with invoke_all_sessions[OF assms(1) ia, of sid]
  show "session_messages sid b' = session_messages sid b" by simp
  from calls ia show "map_of (history_store b') sid = map_of (history_store b) sid"
    by (rule invoke_all_other)
qed

lemma serve_from_start:
  assumes "serve c reqs (init_builder vs) = (rs, b')" "reqs \<noteq> []"
  shows "history_store b' = [(''user-session'', 0)]"
proof -
  from assms(2) obtain w inp rest where reqs: "reqs = (w, inp) # rest" by (cases reqs) auto
  obtain r b1 where i: "invoke c w ''user-session'' inp (init_builder vs) = (r, b1)"
    by (cases "invoke c w ''user-session'' inp (init_builder vs)")
  obtain rs1 b2 where a: "serve c rest b1 = (rs1, b2)" by (cases "serve c rest b1")
  from assms(1) reqs i a have eq: "b' = b2" by (simp add: get_response_def)
  have st: "history_store b1 = [(''user-session'', 0)]"
    using invoke_store[OF i] by (simp add: get_history_def init_builder_def)
  let ?calls = "map (\<lambda>(w, inp). (''user-session'', w, inp)) rest"
  have "\<forall>call \<in> set ?calls. map_of (history_store b1) (fst call) \<noteq> None"
    using st by auto
  moreover have "invoke_all c ?calls b1 = (rs1, b2)" using a by (simp add: serve_invoke_all)
  ultimately have "history_store b2 = history_store b1" by (rule invoke_all_store_fixed)
  with st eq show ?thesis by simp
qed

lemma similarity_search_length:
  "length (similarity_search idx q k) = min k (length (indexed idx))"
  by (simp add: similarity_search_def min.commute)

lemma similarity_search_set: "set (similarity_search idx q k) \<subseteq> set (indexed idx)"
  using set_take_subset[of k "rev (sort_key (similarity idx q) (indexed idx))"]
  by (simp add: similarity_search_def)

lemma similarity_search_sorted:
  "sorted (rev (map (similarity idx q) (similarity_search idx q k)))"
proof -
  let ?s = "sort_key (similarity idx q) (indexed idx)"
  have "rev (map (similarity idx q) (take k (rev ?s))) =
        drop (length ?s - k) (map (similarity idx q) ?s)"
    by (simp add: rev_map rev_take drop_map)
  moreover have "sorted (map (similarity idx q) ?s)" by (rule sorted_sort_key)
  ultimately show ?thesis by (simp add: similarity_search_def sorted_wrt_drop)
qed

lemma similarity_search_top:
  assumes "d \<in> set (similarity_search idx q k)"
    "d' \<in> set (indexed idx) - set (similarity_search idx q k)"
  shows "similarity idx q d' \<le> similarity idx q d"
proof -
  let ?r = "rev (sort_key (similarity idx q) (indexed idx))"
  have srt: "sorted (rev (map (similarity idx q) ?r))"
    by (simp add: rev_map[symmetric] del: rev_map)
  have "set ?r = set (take k ?r) \<union> set (drop k ?r)"
    by (metis append_take_drop_id set_append)
  with assms(2) have d': "d' \<in> set (drop k ?r)" by (auto simp: similarity_search_def)
  from assms(1) have d: "d \<in> set (take k ?r)" by (simp add: similarity_search_def)
  have "rev (map (similarity idx q) ?r) =
        rev (map (similarity idx q) (drop k ?r)) @ rev (map (similarity idx q) (take k ?r))"
    by (metis append_take_drop_id map_append rev_append)
  with srt have "\<forall>x \<in> set (rev (map (similarity idx q) (drop k ?r))).
                 \<forall>y \<in> set (rev (map (similarity idx q) (take k ?r))). x \<le> y"
    by (simp add: sorted_append)
  with d d' show ?thesis by auto
qed

section \<open>Sample runs\<close>

lemma wf_init_builder: "wf (init_builder vs)"
  by (simp add: wf_def init_builder_def)

lemma wf_samples: "wf (no_turns sid)" "wf (one_turn sid)" "wf (two_turns sid)"
  by (simp_all add: wf_def no_turns_def one_turn_def two_turns_def)

lemma search_sample: "similarity_search sample_index q 5 = [sample_doc]"
  by (simp add: similarity_search_def sample_index_def)

lemma assemble_sample:
  "assemble [sample_doc] = ''Amazing phone with great camera quality and battery life.''"
  by (simp add: assemble_def sample_doc_def)

lemma retrieve_sample:
  "index_fault w = None \<Longrightarrow> retrieve (chain_retriever build_chain) w sample_index q = Inr [sample_doc]"
  by (simp add: retrieve_def build_chain_def as_retriever_def search_sample)

lemma get_history_fresh: "get_history sid (init_builder sample_index) = (0, no_turns sid)"
  by (simp add: get_history_def init_builder_def no_turns_def)

lemma get_history_samples:
  "get_history sid (no_turns sid) = (0, no_turns sid)"
  "get_history sid (one_turn sid) = (0, one_turn sid)"
  by (simp_all add: get_history_def no_turns_def one_turn_def)

lemma session_samples:
  "session_messages sid (init_builder sample_index) = []"
  "session_messages sid (no_turns sid) = []"
  "session_messages sid (one_turn sid) = [HumanMessage sample_question, AIMessage sample_answer]"
  "session_messages sid (two_turns sid) =
     [HumanMessage sample_question, AIMessage sample_answer,
      HumanMessage ''Is the battery good?'', AIMessage sample_answer]"
  by (simp_all add: session_messages_def messages_at_def init_builder_def no_turns_def
        one_turn_def two_turns_def)

lemma invoke_answers:
  assumes "get_history sid b = (a, b1)"
    "standalone_query w (messages_at a b1) inp = Inr query"
    "retrieve (chain_retriever c) w (vector_store b1) query = Inr docs"
    "generate w (assemble docs) (messages_at a b1) inp = Inr answer"
  shows "invoke c w sid inp b =
           (Inr answer, add_messages a [HumanMessage inp, AIMessage answer] b1)"
  using assms by (simp add: invoke_def)

lemma invoke_generator_fails:
  assumes "get_history sid b = (a, b1)"
    "standalone_query w (messages_at a b1) inp = Inr query"
    "retrieve (chain_retriever c) w (vector_store b1) query = Inr docs"
    "generate w (assemble docs) (messages_at a b1) inp = Inl e"
  shows "invoke c w sid inp b = (Inl e, b1)"
  using assms by (simp add: invoke_def)

lemma messages_samples:
  "messages_at 0 (no_turns sid) = []"
  "messages_at 0 (one_turn sid) = [HumanMessage sample_question, AIMessage sample_answer]"
  by (simp_all add: messages_at_def no_turns_def one_turn_def)

lemma vector_store_samples:
  "vector_store (no_turns sid) = sample_index" "vector_store (one_turn sid) = sample_index"
  by (simp_all add: no_turns_def one_turn_def)

lemma add_messages_samples:
  "add_messages 0 [HumanMessage sample_question, AIMessage sample_answer] (no_turns sid) =
     one_turn sid"
  "add_messages 0 [HumanMessage ''Is the battery good?'', AIMessage sample_answer] (one_turn sid) =
     two_turns sid"
  by (simp_all add: add_messages_def no_turns_def one_turn_def two_turns_def)

lemma generate_answering:
  "generate answering (assemble [sample_doc]) chat_history inp = Inr sample_answer"
  by (simp add: answering_def assemble_sample sample_answer_def)

lemma generate_rewriter_down:
  "generate rewriter_down (assemble [sample_doc]) chat_history inp = Inr sample_answer"
  by (simp add: rewriter_down_def assemble_sample sample_answer_def)

lemma invoke_first:
  "invoke build_chain answering sid sample_question (init_builder sample_index) =
     (Inr sample_answer, one_turn sid)"
proof -
  have "invoke build_chain answering sid sample_question (init_builder sample_index) =
     (Inr sample_answer,
      add_messages 0 [HumanMessage sample_question, AIMessage sample_answer] (no_turns sid))"
  proof (rule invoke_answers)
    show "get_history sid (init_builder sample_index) = (0, no_turns sid)"
      by (rule get_history_fresh)
    show "standalone_query answering (messages_at 0 (no_turns sid)) sample_question =
            Inr sample_question"
      by (simp add: standalone_query_def messages_samples)
    show "retrieve (chain_retriever build_chain) answering (vector_store (no_turns sid))
            sample_question = Inr [sample_doc]"
      by (simp add: vector_store_samples retrieve_sample answering_def)
    show "generate answering (assemble [sample_doc]) (messages_at 0 (no_turns sid))
            sample_question = Inr sample_answer"
      by (rule generate_answering)
  qed
  then show ?thesis by (simp add: add_messages_samples)
qed

lemma invoke_second:
  "invoke build_chain answering sid ''Is the battery good?'' (one_turn sid) =
     (Inr sample_answer, two_turns sid)"
proof -
  have "invoke build_chain answering sid ''Is the battery good?'' (one_turn sid) =
     (Inr sample_answer,
      add_messages 0 [HumanMessage ''Is the battery good?'', AIMessage sample_answer]
        (one_turn sid))"
  proof (rule invoke_answers)
    show "get_history sid (one_turn sid) = (0, one_turn sid)"
      by (rule get_history_samples)
    show "standalone_query answering (messages_at 0 (one_turn sid)) ''Is the battery good?'' =
            Inr ''Is the battery good?''"
      by (simp add: standalone_query_def messages_samples answering_def)
    show "retrieve (chain_retriever build_chain) answering (vector_store (one_turn sid))
            ''Is the battery good?'' = Inr [sample_doc]"
      by (simp add: vector_store_samples retrieve_sample answering_def)
    show "generate answering (assemble [sample_doc]) (messages_at 0 (one_turn sid))
            ''Is the battery good?'' = Inr sample_answer"
      by (rule generate_answering)
  qed
  then show ?thesis by (simp add: add_messages_samples)
qed

lemma invoke_generator_down:
  "invoke build_chain generator_down sid ''Is the battery good?'' (one_turn sid) =
     (Inl (UpstreamError ''generation failed''), one_turn sid)"
proof (rule invoke_generator_fails)
  show "get_history sid (one_turn sid) = (0, one_turn sid)"
    by (rule get_history_samples)
  show "standalone_query generator_down (messages_at 0 (one_turn sid)) ''Is the battery good?'' =
          Inr ''Is the battery good?''"
    by (simp add: standalone_query_def messages_samples generator_down_def)
  show "retrieve (chain_retriever build_chain) generator_down (vector_store (one_turn sid))
          ''Is the battery good?'' = Inr [sample_doc]"
    by (simp add: vector_store_samples retrieve_sample generator_down_def)
  show "generate generator_down (assemble [sample_doc]) (messages_at 0 (one_turn sid))
          ''Is the battery good?'' = Inl (UpstreamError ''generation failed'')"
    by (simp add: generator_down_def)
qed

lemma invoke_rewriter_down:
  "invoke build_chain rewriter_down sid sample_question (init_builder sample_index) =
     (Inr sample_answer, one_turn sid)"
proof -
  have "invoke build_chain rewriter_down sid sample_question (init_builder sample_index) =
     (Inr sample_answer,
      add_messages 0 [HumanMessage sample_question, AIMessage sample_answer] (no_turns sid))"
  proof (rule invoke_answers)
    show "get_history sid (init_builder sample_index) = (0, no_turns sid)"
      by (rule get_history_fresh)
    show "standalone_query rewriter_down (messages_at 0 (no_turns sid)) sample_question =
            Inr sample_question"
      by (simp add: standalone_query_def messages_samples)
    show "retrieve (chain_retriever build_chain) rewriter_down (vector_store (no_turns sid))
            sample_question = Inr [sample_doc]"
      by (simp add: vector_store_samples retrieve_sample rewriter_down_def)
    show "generate rewriter_down (assemble [sample_doc]) (messages_at 0 (no_turns sid))
            sample_question = Inr sample_answer"
      by (rule generate_rewriter_down)
  qed
  then show ?thesis by (simp add: add_messages_samples)
qed

lemma search_six:
  "similarity_search six_reviews q 5 =
     [\<lparr> page_content = ''dddddd'', metadata = [] \<rparr>,
      \<lparr> page_content = ''fffff'', metadata = [] \<rparr>,
      \<lparr> page_content = ''eeee'', metadata = [] \<rparr>,
      \<lparr> page_content = ''bbb'', metadata = [] \<rparr>,
      \<lparr> page_content = ''cc'', metadata = [] \<rparr>]"
  by (simp add: similarity_search_def six_reviews_def)

lemma invoke_no_turns:
  "invoke build_chain answering sid sample_question (no_turns sid) =
     (Inr sample_answer, one_turn sid)"
proof -
  have "invoke build_chain answering sid sample_question (no_turns sid) =
     (Inr sample_answer,
      add_messages 0 [HumanMessage sample_question, AIMessage sample_answer] (no_turns sid))"
  proof (rule invoke_answers)
    show "get_history sid (no_turns sid) = (0, no_turns sid)"
      by (rule get_history_samples)
    show "standalone_query answering (messages_at 0 (no_turns sid)) sample_question =
            Inr sample_question"
      by (simp add: standalone_query_def messages_samples)
    show "retrieve (chain_retriever build_chain) answering (vector_store (no_turns sid))
            sample_question = Inr [sample_doc]"
      by (simp add: vector_store_samples retrieve_sample answering_def)
    show "generate answering (assemble [sample_doc]) (messages_at 0 (no_turns sid))
            sample_question = Inr sample_answer"
      by (rule generate_answering)
  qed
  then show ?thesis by (simp add: add_messages_samples)
qed


lemma get_history_second_session: "get_history ''s2'' (one_turn ''s1'') = (1, two_sessions)"
  by (simp add: get_history_def one_turn_def two_sessions_def)

section \<open>The conversation claims\<close>



text \<open>
  C2. The chain's retriever is made once, with \<open>search_type="similarity"\<close> and
  \<open>k = 5\<close>, and a request has no \<open>k\<close> of its own. For every query, a retrieval that
  returns gives at most 5 documents and at least \<open>min(5, number of indexed documents)\<close>,
  all from the index, in descending order of similarity, and no document left out is
  more similar than one returned.
\<close>

theorem retriever_top_k:
  "search_k (chain_retriever build_chain) = 5
   \<and> search_type (chain_retriever build_chain) = ''similarity''
   \<and> retrieve (chain_retriever build_chain) w idx q =
       (case index_fault w of Some e \<Rightarrow> Inl e | None \<Rightarrow> Inr (similarity_search idx q 5))
   \<and> (retrieve (chain_retriever build_chain) w idx q = Inr docs \<longrightarrow>
        length docs \<le> 5 \<and> min 5 (length (indexed idx)) \<le> length docs \<and>
        set docs \<subseteq> set (indexed idx) \<and>
        sorted (rev (map (similarity idx q) docs)) \<and>
        (\<forall>d \<in> set docs. \<forall>d' \<in> set (indexed idx) - set docs.
           similarity idx q d' \<le> similarity idx q d))"
proof -
  have k: "search_k (chain_retriever build_chain) = 5"
    "search_type (chain_retriever build_chain) = ''similarity''"
    by (simp_all add: build_chain_def as_retriever_def)
  have r: "retrieve (chain_retriever build_chain) w idx q =
       (case index_fault w of Some e \<Rightarrow> Inl e | None \<Rightarrow> Inr (similarity_search idx q 5))"
    by (cases "index_fault w") (simp_all add: retrieve_def k)
  have "length docs \<le> 5 \<and> min 5 (length (indexed idx)) \<le> length docs \<and>
        set docs \<subseteq> set (indexed idx) \<and>
        sorted (rev (map (similarity idx q) docs)) \<and>
        (\<forall>d \<in> set docs. \<forall>d' \<in> set (indexed idx) - set docs.
           similarity idx q d' \<le> similarity idx q d)"
    if "retrieve (chain_retriever build_chain) w idx q = Inr docs"
  proof -
    from that r have docs: "docs = similarity_search idx q 5"
      by (cases "index_fault w") simp_all
    show ?thesis
      unfolding docs
      using similarity_search_length[of idx q 5] similarity_search_set[of idx q 5]
        similarity_search_sorted[of idx q 5] similarity_search_top[of _ idx q 5]
      by auto
  qed
  with k r show ?thesis by blast
qed

theorem retriever_top_k_witness:
  "retrieve (chain_retriever build_chain) answering six_reviews sample_question =
     Inr [\<lparr> page_content = ''dddddd'', metadata = [] \<rparr>,
          \<lparr> page_content = ''fffff'', metadata = [] \<rparr>,
          \<lparr> page_content = ''eeee'', metadata = [] \<rparr>,
          \<lparr> page_content = ''bbb'', metadata = [] \<rparr>,
          \<lparr> page_content = ''cc'', metadata = [] \<rparr>]
   \<and> length (indexed six_reviews) = 6"
proof -
  let ?docs = "[\<lparr> page_content = ''dddddd'', metadata = [] \<rparr>,
          \<lparr> page_content = ''fffff'', metadata = [] \<rparr>,
          \<lparr> page_content = ''eeee'', metadata = [] \<rparr>,
          \<lparr> page_content = ''bbb'', metadata = [] \<rparr>,
          \<lparr> page_content = ''cc'', metadata = [] \<rparr>]"
  note t = retriever_top_k [of answering six_reviews sample_question ?docs]
  have "index_fault answering = None" by (simp add: answering_def)
  with t have r: "retrieve (chain_retriever build_chain) answering six_reviews sample_question =
      Inr ?docs" by (simp add: search_six)
  with t have "length ?docs \<le> 5 \<and> min 5 (length (indexed six_reviews)) \<le> length ?docs"
    by blast
  moreover have "length (indexed six_reviews) = 6" by (simp add: six_reviews_def)
  ultimately show ?thesis using r by simp
qed

text \<open>
  C3. \<open>_get_history\<close> is idempotent: a second call with the same key returns the same
  object and changes nothing, also after any requests served in between. Messages added
  through the returned object are read by the next holder that gets it for the key. The
  first call on an unseen key creates an empty history at an address that no other
  session has.
\<close>

theorem get_history_idempotent:
  "(get_history sid b = (a, b1) \<longrightarrow> get_history sid b1 = (a, b1))
   \<and> (get_history sid b = (a, b1) \<and> invoke_all c calls b1 = (rs, b2) \<longrightarrow>
        get_history sid b2 = (a, b2))
   \<and> (wf b \<and> get_history sid b = (a, b1) \<longrightarrow>
        get_history sid (add_messages a ms b1) = (a, add_messages a ms b1) \<and>
        messages_at a (add_messages a ms b1) = messages_at a b1 @ ms)
   \<and> (wf b \<and> map_of (history_store b) sid = None \<and> get_history sid b = (a, b1) \<longrightarrow>
        map_of (history_store b1) sid = Some a \<and> messages_at a b1 = [] \<and>
        a \<notin> snd ` set (history_store b) \<and> length (heap b1) = Suc (length (heap b)))"
  using get_history_twice [of sid b a b1] get_history_after_calls [of sid b a b1 c calls rs b2]
    get_history_after_append [of b sid a b1 ms] get_history_creates [of b sid a b1]
  by blast

theorem get_history_idempotent_witness:
  "get_history ''s1'' (init_builder sample_index) = (0, no_turns ''s1'')
   \<and> get_history ''s1'' (no_turns ''s1'') = (0, no_turns ''s1'')
   \<and> get_history ''s1'' (one_turn ''s1'') = (0, one_turn ''s1'')
   \<and> messages_at 0 (add_messages 0 [HumanMessage ''Hello'', AIMessage ''Hi there!'']
        (no_turns ''s1'')) = [HumanMessage ''Hello'', AIMessage ''Hi there!'']
   \<and> map_of (history_store (no_turns ''s1'')) ''s1'' = Some 0"
proof -
  let ?b = "init_builder sample_index"
  let ?ms = "[HumanMessage ''Hello'', AIMessage ''Hi there!'']"
  have g: "get_history ''s1'' ?b = (0, no_turns ''s1'')" by (rule get_history_fresh)
  have c: "invoke_all build_chain [(''s1'', answering, sample_question)] (no_turns ''s1'') =
             ([Inr sample_answer], one_turn ''s1'')"
    by (simp add: invoke_no_turns)
  have w: "wf ?b" by (rule wf_init_builder)
  have n: "map_of (history_store ?b) ''s1'' = None" by (simp add: init_builder_def)
  note t = get_history_idempotent [of "''s1''" ?b 0 "no_turns ''s1''" build_chain
      "[(''s1'', answering, sample_question)]" "[Inr sample_answer]" "one_turn ''s1''" ?ms]
  from t g have 1: "get_history ''s1'' (no_turns ''s1'') = (0, no_turns ''s1'')" by blast
  from t g c have 2: "get_history ''s1'' (one_turn ''s1'') = (0, one_turn ''s1'')" by blast
  from t g w have 3: "messages_at 0 (add_messages 0 ?ms (no_turns ''s1'')) =
      messages_at 0 (no_turns ''s1'') @ ?ms" by blast
  from t g w n have 4: "map_of (history_store (no_turns ''s1'')) ''s1'' = Some 0" by blast
  from g 1 2 3 4 show ?thesis by (simp add: messages_samples)
qed

text \<open>
  C4. For two distinct keys, appending to the history of one leaves the messages of the
  other as they were; the history obtained afterwards for the other key is a different
  object holding those unchanged messages; and a request for one key leaves the messages
  of the other unchanged.
\<close>

theorem session_isolation:
  "(wf b \<and> sid1 \<noteq> sid2 \<and> get_history sid1 b = (a1, b1) \<longrightarrow>
       session_messages sid2 (add_messages a1 ms b1) = session_messages sid2 b \<and>
       session_messages sid1 (add_messages a1 ms b1) = session_messages sid1 b @ ms \<and>
       (\<forall>a2 b2. get_history sid2 (add_messages a1 ms b1) = (a2, b2) \<longrightarrow>
          a2 \<noteq> a1 \<and> messages_at a2 b2 = session_messages sid2 b))
   \<and> (wf b \<and> sid1 \<noteq> sid2 \<and> invoke c w sid1 inp b = (r, b') \<longrightarrow>
       session_messages sid2 b' = session_messages sid2 b)"
  using append_isolated [of b sid1 sid2 a1 b1 ms] other_holder_isolated [of b sid1 sid2 a1 b1 ms]
    invoke_isolated [of b sid1 sid2 c w inp r b']
  by blast

theorem session_isolation_witness:
  "get_history ''s2'' (one_turn ''s1'') = (1, two_sessions)
   \<and> session_messages ''s1''
       (add_messages 1 [HumanMessage ''Hello'', AIMessage ''Hi there!''] two_sessions) =
     [HumanMessage sample_question, AIMessage sample_answer]
   \<and> session_messages ''s2''
       (add_messages 1 [HumanMessage ''Hello'', AIMessage ''Hi there!''] two_sessions) =
     [HumanMessage ''Hello'', AIMessage ''Hi there!'']
   \<and> session_messages ''s1''
       (snd (invoke build_chain answering ''s2'' sample_question (one_turn ''s1''))) =
     [HumanMessage sample_question, AIMessage sample_answer]"
proof -
  let ?b = "one_turn ''s1''"
  let ?ms = "[HumanMessage ''Hello'', AIMessage ''Hi there!'']"
  let ?i = "invoke build_chain answering ''s2'' sample_question ?b"
  have h: "wf ?b \<and> ''s2'' \<noteq> ''s1'' \<and> get_history ''s2'' ?b = (1, two_sessions)"
    by (simp add: wf_samples get_history_second_session)
  have i: "wf ?b \<and> ''s2'' \<noteq> ''s1'' \<and> ?i = (fst ?i, snd ?i)"
    by (simp add: wf_samples)
  note t = session_isolation [of ?b "''s2''" "''s1''" 1 two_sessions ?ms build_chain answering
      sample_question "fst ?i" "snd ?i"]
  from t h have 1: "session_messages ''s1'' (add_messages 1 ?ms two_sessions) =
      session_messages ''s1'' ?b" by blast
  from t h have 2: "session_messages ''s2'' (add_messages 1 ?ms two_sessions) =
      session_messages ''s2'' ?b @ ?ms" by blast
  from t i have 3: "session_messages ''s1'' (snd ?i) = session_messages ''s1'' ?b" by blast
  have "session_messages ''s2'' ?b = []" by (simp add: session_messages_def one_turn_def)
  with 1 2 3 h show ?thesis by (simp add: session_samples)
qed

text \<open>
  C5. After requests for one session served one at a time, all of them successful, the
  session holds its earlier messages followed by the input and the answer of each
  request, in request order; on a session that was empty, the turns are the requests'
  inputs paired with their answers, in order.
\<close>

theorem history_ordering:
  "wf b \<and> invoke_all c (map (\<lambda>(w, inp). (sid, w, inp)) reqs) b = (map Inr answers, b') \<longrightarrow>
     length answers = length reqs \<and>
     session_messages sid b' =
       session_messages sid b @
       concat (map (\<lambda>((w, inp), answer). [HumanMessage inp, AIMessage answer]) (zip reqs answers)) \<and>
     (session_messages sid b = [] \<longrightarrow>
        turns (session_messages sid b') = zip (map snd reqs) answers)"
  using invoke_all_same_session [of b c sid reqs answers b'] by blast

theorem history_ordering_witness:
  "invoke_all build_chain
      [(''s1'', answering, sample_question), (''s1'', answering, ''Is the battery good?'')]
      (init_builder sample_index) =
     ([Inr sample_answer, Inr sample_answer], two_turns ''s1'')
   \<and> turns (session_messages ''s1'' (two_turns ''s1'')) =
     [(sample_question, sample_answer), (''Is the battery good?'', sample_answer)]"
proof -
  let ?b = "init_builder sample_index"
  let ?reqs = "[(answering, sample_question), (answering, ''Is the battery good?'')]"
  have r: "invoke_all build_chain
      [(''s1'', answering, sample_question), (''s1'', answering, ''Is the battery good?'')] ?b =
     ([Inr sample_answer, Inr sample_answer], two_turns ''s1'')"
    by (simp add: invoke_first invoke_second)
  then have h: "wf ?b \<and> invoke_all build_chain (map (\<lambda>(w, inp). (''s1'', w, inp)) ?reqs) ?b =
     (map Inr [sample_answer, sample_answer], two_turns ''s1'')"
    by (simp add: wf_init_builder)
  have e: "session_messages ''s1'' ?b = []" by (rule session_samples)
  from history_ordering [of ?b build_chain "''s1''" ?reqs "[sample_answer, sample_answer]"
      "two_turns ''s1''"] h e
  have "turns (session_messages ''s1'' (two_turns ''s1'')) =
      zip (map snd ?reqs) [sample_answer, sample_answer]" by blast
  with r show ?thesis by simp
qed

text \<open>
  C7. With an empty history the standalone query is the user's input, and it does not
  fail: a request on a session without messages retrieves with the raw input and never
  consults the rewriting model.
\<close>

theorem empty_history_raw_input:
  "standalone_query w [] inp = Inr inp
   \<and> (wf b \<and> session_messages sid b = [] \<and> get_history sid b = (a, b1) \<longrightarrow>
       invoke c w sid inp b =
         (case retrieve (chain_retriever c) w (vector_store b) inp of
            Inl e \<Rightarrow> (Inl e, b1)
          | Inr docs \<Rightarrow>
              (case generate w (assemble docs) [] inp of
                 Inl e \<Rightarrow> (Inl e, b1)
               | Inr answer \<Rightarrow>
                   (Inr answer, add_messages a [HumanMessage inp, AIMessage answer] b1))))"
  using invoke_empty_history [of b sid a b1 c w inp] by (simp add: standalone_query_def)

theorem empty_history_raw_input_witness:
  "rewrite rewriter_down [] sample_question = Inl (UpstreamError ''rewriting failed'')
   \<and> standalone_query rewriter_down [] sample_question = Inr sample_question
   \<and> invoke build_chain rewriter_down ''s1'' sample_question (init_builder sample_index) =
     (Inr sample_answer, one_turn ''s1'')"
proof -
  let ?b = "init_builder sample_index"
  have h: "wf ?b \<and> session_messages ''s1'' ?b = [] \<and> get_history ''s1'' ?b = (0, no_turns ''s1'')"
    by (simp add: wf_init_builder session_samples get_history_fresh)
  note t = empty_history_raw_input [of rewriter_down sample_question ?b "''s1''" 0
      "no_turns ''s1''" build_chain]
  from t have 1: "standalone_query rewriter_down [] sample_question = Inr sample_question"
    by blast
  from t h have "invoke build_chain rewriter_down ''s1'' sample_question ?b =
     (case retrieve (chain_retriever build_chain) rewriter_down (vector_store ?b) sample_question of
        Inl e \<Rightarrow> (Inl e, no_turns ''s1'')
      | Inr docs \<Rightarrow>
          (case generate rewriter_down (assemble docs) [] sample_question of
             Inl e \<Rightarrow> (Inl e, no_turns ''s1'')
           | Inr answer \<Rightarrow>
               (Inr answer,
                add_messages 0 [HumanMessage sample_question, AIMessage answer] (no_turns ''s1''))))"
    by blast
  moreover have "vector_store ?b = sample_index" by (simp add: init_builder_def)
  moreover have "index_fault rewriter_down = None" by (simp add: rewriter_down_def)
  ultimately have 2: "invoke build_chain rewriter_down ''s1'' sample_question ?b =
     (Inr sample_answer, one_turn ''s1'')"
    by (simp add: retrieve_sample generate_rewriter_down add_messages_samples)
  have "rewrite rewriter_down [] sample_question = Inl (UpstreamError ''rewriting failed'')"
    by (simp add: rewriter_down_def)
  with 1 2 show ?thesis by simp
qed

text \<open>
  C9. \<open>get_response\<close> invokes the chain with the session id \<open>"user-session"\<close> for every
  request. Whatever requests the endpoint serves, the answered ones are appended, in
  order, to that one session; every other session is left untouched, and starting from a
  new builder the store holds that single session.
\<close>

theorem single_shared_session:
  "get_response c w inp b = invoke c w ''user-session'' inp b
   \<and> (wf b \<and> serve c reqs b = (rs, b') \<longrightarrow>
        length rs = length reqs \<and>
        session_messages ''user-session'' b' =
          session_messages ''user-session'' b @
          concat (map (\<lambda>((w, inp), r). case r of Inl e \<Rightarrow> []
                        | Inr answer \<Rightarrow> [HumanMessage inp, AIMessage answer]) (zip reqs rs)) \<and>
        (\<forall>sid. sid \<noteq> ''user-session'' \<longrightarrow>
           session_messages sid b' = session_messages sid b \<and>
           map_of (history_store b') sid = map_of (history_store b) sid))
   \<and> (serve c reqs (init_builder vs) = (rs, b') \<and> reqs \<noteq> [] \<longrightarrow>
        history_store b' = [(''user-session'', 0)])"
  using serve_sessions [of b c reqs rs b'] serve_from_start [of c reqs vs rs b']
  by (simp add: get_response_def)

theorem single_shared_session_witness:
  "serve build_chain [(answering, sample_question), (generator_down, ''Is the battery good?'')]
      (init_builder sample_index) =
     ([Inr sample_answer, Inl (UpstreamError ''generation failed'')], one_turn ''user-session'')
   \<and> history_store (one_turn ''user-session'') = [(''user-session'', 0)]
   \<and> session_messages ''user-session'' (one_turn ''user-session'') =
     [HumanMessage sample_question, AIMessage sample_answer]
   \<and> session_messages ''alice'' (one_turn ''user-session'') = []"
proof -
  let ?b = "init_builder sample_index"
  let ?reqs = "[(answering, sample_question), (generator_down, ''Is the battery good?'')]"
  let ?rs = "[Inr sample_answer, Inl (UpstreamError ''generation failed'')]"
  have r: "serve build_chain ?reqs ?b = (?rs, one_turn ''user-session'')"
    by (simp add: get_response_def invoke_first invoke_generator_down)
  have w: "wf ?b" by (rule wf_init_builder)
  have ne: "?reqs \<noteq> []" by simp
  note t = single_shared_session [of build_chain answering sample_question ?b ?reqs ?rs
      "one_turn ''user-session''" sample_index]
  from t r ne have 1: "history_store (one_turn ''user-session'') = [(''user-session'', 0)]"
    by blast
  from t r w have 2: "session_messages ''user-session'' (one_turn ''user-session'') =
      session_messages ''user-session'' ?b @
      concat (map (\<lambda>((w, inp), r). case r of Inl e \<Rightarrow> []
                    | Inr answer \<Rightarrow> [HumanMessage inp, AIMessage answer]) (zip ?reqs ?rs))"
    by blast
  from t r w have "\<forall>sid. sid \<noteq> ''user-session'' \<longrightarrow>
      session_messages sid (one_turn ''user-session'') = session_messages sid ?b" by blast
  then have 3: "session_messages ''alice'' (one_turn ''user-session'') =
      session_messages ''alice'' ?b" by simp
  from r 1 2 3 show ?thesis by (simp add: session_samples)
qed

end
